theory Spec2Isabelle
  imports Complex_Main "HOL-Library.Sublist" "HOL-Library.Multiset" "HOL-Library.Product_Lexorder"
begin

section \<open>Python strings\<close>

text \<open>
  A Python \<open>str\<close> is modelled as a \<open>string\<close>, each \<open>char\<close> standing for the code point
  of the same number (0 to 255), so that \<open>length\<close> is Python's \<open>len\<close>. The library
  methods the source calls are modelled after their documented behaviour.
\<close>

text \<open>\<open>c.isspace()\<close> on the code points below 256: tab to carriage return, the four
  separators 28 to 31, the space, NEL (133) and the no-break space (160).\<close>

definition py_isspace :: "char \<Rightarrow> bool" where
  "py_isspace c =
     (let n = (of_char c :: nat)
      in (9 \<le> n \<and> n \<le> 13) \<or> (28 \<le> n \<and> n \<le> 32) \<or> n = 133 \<or> n = 160)"

text \<open>\<open>c.isdigit()\<close> on the code points below 256: the ten decimal digits and the
  superscripts two, three (178, 179) and one (185).\<close>

definition py_isdigit :: "char \<Rightarrow> bool" where
  "py_isdigit c =
     (let n = (of_char c :: nat)
      in (48 \<le> n \<and> n \<le> 57) \<or> n = 178 \<or> n = 179 \<or> n = 185)"

text \<open>\<open>s.strip()\<close>: leading and trailing whitespace removed.\<close>

definition py_strip :: "string \<Rightarrow> string" where
  "py_strip s = rev (dropWhile py_isspace (rev (dropWhile py_isspace s)))"

text \<open>\<open>sub in s\<close>: \<open>sub\<close> occurs in \<open>s\<close> as a contiguous substring.\<close>

fun py_in :: "string \<Rightarrow> string \<Rightarrow> bool" where
  "py_in sub [] = (sub = [])"
| "py_in sub (c # cs) = (prefix sub (c # cs) \<or> py_in sub cs)"

text \<open>\<open>s.find(sub)\<close>: the lowest index at which \<open>sub\<close> occurs in \<open>s\<close>, or -1.\<close>

fun py_find :: "string \<Rightarrow> string \<Rightarrow> int" where
  "py_find sub [] = (if sub = [] then 0 else - 1)"
| "py_find sub (c # cs) =
     (if prefix sub (c # cs) then 0
      else (let r = py_find sub cs in if r < 0 then - 1 else r + 1))"

text \<open>Used by \<open>py_split\<close>: the character \<open>c\<close> is put in front of the first piece.\<close>

fun cons_first :: "char \<Rightarrow> string list \<Rightarrow> string list" where
  "cons_first c [] = [[c]]"
| "cons_first c (p # ps) = (c # p) # ps"

text \<open>\<open>s.split(sep)\<close> for a non-empty separator: the pieces between the occurrences of
  \<open>sep\<close>, found from left to right without overlap; one piece more than occurrences.
  Every call in the source passes a non-empty literal separator (Python raises
  ValueError on an empty one); on an empty \<open>sep\<close> the model returns \<open>[s]\<close>.\<close>

fun py_split :: "string \<Rightarrow> string \<Rightarrow> string list" where
  "py_split sep [] = [[]]"
| "py_split sep (c # cs) =
     (if sep \<noteq> [] \<and> prefix sep (c # cs)
      then [] # py_split sep (drop (length sep - 1) cs)
      else cons_first c (py_split sep cs))"

text \<open>\<open>s.replace(old, new)\<close> for a non-empty \<open>old\<close>: every occurrence, found from left
  to right without overlap, replaced.\<close>

fun py_replace :: "string \<Rightarrow> string \<Rightarrow> string \<Rightarrow> string" where
  "py_replace old new [] = []"
| "py_replace old new (c # cs) =
     (if old \<noteq> [] \<and> prefix old (c # cs)
      then new @ py_replace old new (drop (length old - 1) cs)
      else c # py_replace old new cs)"

section \<open>Chunking the transcript\<close>

text \<open>
  The loop of \<open>chunk_text\<close> over the sentences, on the pair of the chunks appended so
  far and the running \<open>current_chunk\<close>. The budget \<open>chunk_size\<close> is a Python integer.
\<close>

fun chunk_loop :: "int \<Rightarrow> string list \<Rightarrow> string list \<times> string \<Rightarrow> string list \<times> string" where
  "chunk_loop chunk_size [] (chunks, current_chunk) = (chunks, current_chunk)"
| "chunk_loop chunk_size (sentence # rest) (chunks, current_chunk) =
     (if int (length current_chunk) + int (length sentence) \<le> chunk_size
      then chunk_loop chunk_size rest (chunks, current_chunk @ sentence @ ''. '')
      else chunk_loop chunk_size rest (chunks @ [py_strip current_chunk], sentence @ ''. ''))"

definition chunk_text :: "string \<Rightarrow> int \<Rightarrow> string list" where
  "chunk_text text chunk_size =
     (if text = [] then [''Sample text for empty transcript'']
      else (let sentences = py_split ''. '' text;
                (chunks, current_chunk) = chunk_loop chunk_size sentences ([], [])
            in if current_chunk \<noteq> [] then chunks @ [py_strip current_chunk] else chunks))"

text \<open>The default value of the parameter \<open>chunk_size\<close>.\<close>

definition default_chunk_size :: int where
  "default_chunk_size = 500"

text \<open>Invariants of the loop, for a budget \<open>B\<close> and the set \<open>S\<close> of the sentences:
  the running chunk is empty, or ends with the separator and is at most \<open>B + 2\<close> long,
  or is a single sentence longer than \<open>B\<close>; a finished chunk is at most \<open>B + 1\<close> long
  or is such a sentence, stripped.\<close>

definition cur_ok :: "int \<Rightarrow> string set \<Rightarrow> string \<Rightarrow> bool" where
  "cur_ok B S cur =
     (cur = [] \<or> (\<exists>u. cur = u @ ''. '' \<and> int (length cur) \<le> B + 2)
      \<or> (\<exists>s\<in>S. B < int (length s) \<and> cur = s @ ''. ''))"

definition chunk_ok :: "int \<Rightarrow> string set \<Rightarrow> string \<Rightarrow> bool" where
  "chunk_ok B S c =
     (int (length c) \<le> B + 1 \<or> (\<exists>s\<in>S. B < int (length s) \<and> c = py_strip (s @ ''. '')))"

section \<open>Errors and the external collaborators\<close>

text \<open>
  The exceptions of the model: Python's IndexError, numpy's ValueError on shapes that
  do not broadcast, and any exception raised by an external service (the embedding
  model, the generative model).
\<close>

datatype py_error = IndexError | ValueError | ExternalError

text \<open>\<open>[f(x) for x in xs]\<close> where \<open>f\<close> may raise: the first exception ends the
  comprehension.\<close>

fun map_result :: "('a \<Rightarrow> py_error + 'b) \<Rightarrow> 'a list \<Rightarrow> py_error + 'b list" where
  "map_result f [] = Inr []"
| "map_result f (x # xs) =
     (case f x of
        Inl e \<Rightarrow> Inl e
      | Inr y \<Rightarrow> (case map_result f xs of Inl e \<Rightarrow> Inl e | Inr ys \<Rightarrow> Inr (y # ys)))"

text \<open>\<open>xs[i]\<close> for an index \<open>i \<ge> 0\<close>.\<close>

definition py_getitem :: "'a list \<Rightarrow> nat \<Rightarrow> py_error + 'a" where
  "py_getitem xs i = (if i < length xs then Inr (xs ! i) else Inl IndexError)"

text \<open>\<open>xs[:k]\<close> for a Python integer \<open>k\<close>: a negative \<open>k\<close> counts from the end.\<close>

definition py_slice_to :: "'a list \<Rightarrow> int \<Rightarrow> 'a list" where
  "py_slice_to xs k =
     (if k < 0 then take (nat (int (length xs) + k)) xs else take (nat k) xs)"

section \<open>Single-precision arithmetic\<close>

text \<open>
  The embedding model returns arrays of IEEE single-precision numbers (float32), and
  numpy keeps that type in the subtraction and in \<open>np.linalg.norm\<close>. A float32 value is
  a finite number, an infinity or NaN; a finite one is modelled by the real number it
  denotes (the sign of zero is not kept: it changes no comparison).
\<close>

datatype f32 = Finite real | PInf | NInf | NaN

text \<open>\<open>pow2 e\<close> is 2 to the power \<open>e\<close>; \<open>bit_length n\<close> is the number of binary digits
  of \<open>n > 0\<close>; \<open>ilog2 x\<close> is the integer \<open>e\<close> with \<open>pow2 e \<le> x < pow2 (e + 1)\<close>,
  for \<open>x > 0\<close>.\<close>

definition pow2 :: "int \<Rightarrow> real" where
  "pow2 e = (if 0 \<le> e then 2 ^ nat e else 1 / 2 ^ nat (- e))"

function bit_length :: "int \<Rightarrow> int" where
  "bit_length n = (if n \<le> 0 then 0 else bit_length (n div 2) + 1)"
  by auto
termination
  by (relation "measure nat") auto

declare bit_length.simps [simp del]

definition ilog2 :: "real \<Rightarrow> int" where
  "ilog2 x =
     (if 1 \<le> x then bit_length \<lfloor>x\<rfloor> - 1
      else - bit_length (\<lceil>1 / x\<rceil> - 1))"

text \<open>The nearest integer, a tie going to the even one.\<close>

definition round_half_even :: "real \<Rightarrow> int" where
  "round_half_even x =
     (let f = \<lfloor>x\<rfloor>; r = x - of_int f
      in if r < 1 / 2 then f else if 1 / 2 < r then f + 1 else if even f then f else f + 1)"

text \<open>
  Rounding a real number to float32, to nearest and ties to even: 24 binary digits of
  precision, the exponent not below -126 (below it the numbers are subnormal, multiples
  of \<open>pow2 (-149)\<close>, and the smallest magnitudes round to zero), and an infinity once the
  rounded magnitude reaches \<open>pow2 128\<close>.
\<close>

definition round_f32 :: "real \<Rightarrow> f32" where
  "round_f32 x =
     (if x = 0 then Finite 0
      else (let a = \<bar>x\<bar>;
                e = max (ilog2 a) (- 126);
                u = pow2 (e - 23);
                r = of_int (round_half_even (a / u)) * u
            in if pow2 128 \<le> r then (if 0 < x then PInf else NInf)
               else Finite (if 0 < x then r else - r)))"

text \<open>Addition and multiplication of float32 values: the exact result, rounded.\<close>

fun f32_add :: "f32 \<Rightarrow> f32 \<Rightarrow> f32" where
  "f32_add NaN y = NaN"
| "f32_add x NaN = NaN"
| "f32_add PInf NInf = NaN"
| "f32_add NInf PInf = NaN"
| "f32_add PInf y = PInf"
| "f32_add x PInf = PInf"
| "f32_add NInf y = NInf"
| "f32_add x NInf = NInf"
| "f32_add (Finite a) (Finite b) = round_f32 (a + b)"

fun f32_mul :: "f32 \<Rightarrow> f32 \<Rightarrow> f32" where
  "f32_mul NaN y = NaN"
| "f32_mul x NaN = NaN"
| "f32_mul (Finite a) (Finite b) = round_f32 (a * b)"
| "f32_mul (Finite a) PInf = (if a = 0 then NaN else if 0 < a then PInf else NInf)"
| "f32_mul (Finite a) NInf = (if a = 0 then NaN else if 0 < a then NInf else PInf)"
| "f32_mul PInf (Finite b) = (if b = 0 then NaN else if 0 < b then PInf else NInf)"
| "f32_mul NInf (Finite b) = (if b = 0 then NaN else if 0 < b then NInf else PInf)"
| "f32_mul PInf PInf = PInf"
| "f32_mul NInf NInf = PInf"
| "f32_mul PInf NInf = NInf"
| "f32_mul NInf PInf = NInf"

text \<open>The integer square root, and the square root of a float32 value, correctly
  rounded: with \<open>u\<close> the unit in the last place of the result, the nearest multiple of
  \<open>u\<close> to the exact root is found by comparing squares.\<close>

function isqrt :: "int \<Rightarrow> int" where
  "isqrt n =
     (if n < 2 then max n 0
      else (let r = 2 * isqrt (n div 4) in if (r + 1) * (r + 1) \<le> n then r + 1 else r))"
  by auto
termination
  by (relation "measure nat") auto

declare isqrt.simps [simp del]

fun f32_sqrt :: "f32 \<Rightarrow> f32" where
  "f32_sqrt NaN = NaN"
| "f32_sqrt NInf = NaN"
| "f32_sqrt PInf = PInf"
| "f32_sqrt (Finite x) =
     (if x < 0 then NaN
      else if x = 0 then Finite 0
      else (let e = ilog2 x div 2;
                u = pow2 (e - 23);
                y = x / (u * u);
                n0 = isqrt \<lfloor>y\<rfloor>;
                h = (of_int n0 + 1 / 2) * (of_int n0 + 1 / 2);
                n = (if h < y then n0 + 1 else if y < h then n0
                     else if even n0 then n0 else n0 + 1)
            in Finite (of_int n * u)))"

text \<open>The order in which numpy sorts: the numbers ascending, NaN last. \<open>f32_key\<close> maps
  it into a linear order: a class, then the value.\<close>

fun f32_le :: "f32 \<Rightarrow> f32 \<Rightarrow> bool" where
  "f32_le x NaN = True"
| "f32_le NaN y = False"
| "f32_le NInf y = True"
| "f32_le x NInf = False"
| "f32_le x PInf = True"
| "f32_le PInf y = False"
| "f32_le (Finite a) (Finite b) = (a \<le> b)"

fun f32_key :: "f32 \<Rightarrow> int \<times> real" where
  "f32_key NInf = (0, 0)"
| "f32_key (Finite a) = (1, a)"
| "f32_key PInf = (2, 0)"
| "f32_key NaN = (3, 0)"

section \<open>Semantic search\<close>

text \<open>
  An embedding is a vector of finite float32 numbers, each given by its value; the
  embedding matrix is the list of its rows. The embedding model is a parameter \<open>encode\<close>,
  from a list of texts to the list of their embeddings, which may raise.
\<close>

type_synonym embedding = "real list"

text \<open>One row of \<open>embeddings - query_embedding\<close>, with numpy's broadcasting: equal
  lengths subtract pointwise, an axis of length 1 is stretched, other shapes raise.
  Each difference is rounded to float32.\<close>

definition np_subtract_row :: "embedding \<Rightarrow> embedding \<Rightarrow> py_error + f32 list" where
  "np_subtract_row e q =
     (if length e = length q then Inr (map2 (\<lambda>a b. round_f32 (a - b)) e q)
      else if length q = 1 then Inr (map (\<lambda>a. round_f32 (a - hd q)) e)
      else if length e = 1 then Inr (map (\<lambda>b. round_f32 (hd e - b)) q)
      else Inl ValueError)"

text \<open>
  \<open>np.linalg.norm\<close> squares the elements of a row, adds the squares with
  \<open>np.add.reduce\<close> and takes the square root, all in float32. The order in which
  \<open>np.add.reduce\<close> adds the elements of a row is numpy's own (blocks and several
  accumulators on long rows), so the reduction is a parameter \<open>add_reduce\<close> of the
  model, and \<open>reduce_contract\<close> is what holds of it whatever the order: the result comes
  from the elements of the row, each used once, by float32 additions (starting from 0
  or not).
\<close>

inductive sum_order :: "f32 list \<Rightarrow> f32 \<Rightarrow> bool" where
  sum_empty: "sum_order [] (Finite 0)"
| sum_single: "sum_order [x] x"
| sum_append: "sum_order xs a \<Longrightarrow> sum_order ys b \<Longrightarrow> sum_order (xs @ ys) (f32_add a b)"
| sum_reorder: "sum_order xs a \<Longrightarrow> mset xs = mset ys \<Longrightarrow> sum_order ys a"

definition reduce_contract :: "(f32 list \<Rightarrow> f32) \<Rightarrow> bool" where
  "reduce_contract add_reduce = (\<forall>xs. sum_order xs (add_reduce xs))"

text \<open>A reduction that meets the contract: from 0, the elements added from left to
  right. On a row of one or two elements every order gives its result.\<close>

definition sum_left :: "f32 list \<Rightarrow> f32" where
  "sum_left xs = foldl f32_add (Finite 0) xs"

definition row_norm :: "(f32 list \<Rightarrow> f32) \<Rightarrow> f32 list \<Rightarrow> f32" where
  "row_norm add_reduce d = f32_sqrt (add_reduce (map (\<lambda>x. f32_mul x x) d))"

text \<open>The distance that the code computes between a stored embedding and the query
  embedding.\<close>

definition row_distance ::
  "(f32 list \<Rightarrow> f32) \<Rightarrow> embedding \<Rightarrow> embedding \<Rightarrow> py_error + f32" where
  "row_distance add_reduce e q =
     (case np_subtract_row e q of
        Inl err \<Rightarrow> Inl err
      | Inr d \<Rightarrow> Inr (row_norm add_reduce d))"

text \<open>\<open>np.linalg.norm(embeddings - query_embedding, axis=1)\<close>. The store of no embeddings
  is the one-dimensional array of length 0, on which the expression raises (its shape
  does not broadcast against the query embedding, or it has no axis 1).\<close>

definition distances ::
  "(f32 list \<Rightarrow> f32) \<Rightarrow> embedding list \<Rightarrow> embedding \<Rightarrow> py_error + f32 list" where
  "distances add_reduce embeddings query_embedding =
     (if embeddings = [] then Inl ValueError
      else map_result (\<lambda>e. row_distance add_reduce e query_embedding) embeddings)"


text \<open>
  \<open>np.argsort\<close> is called with its default kind, which numpy documents as not stable.
  It is a parameter \<open>argsort\<close> of the model, and \<open>argsort_contract\<close> is what numpy
  guarantees of it: the indices of the input, each once, in ascending order of the
  values.
\<close>

definition argsort_contract :: "(f32 list \<Rightarrow> nat list) \<Rightarrow> bool" where
  "argsort_contract argsort =
     (\<forall>ds. distinct (argsort ds) \<and> set (argsort ds) = {0..<length ds}
           \<and> sorted_wrt f32_le (map (\<lambda>i. ds ! i) (argsort ds)))"

text \<open>A function that meets the contract: the stable sort of the indices, which
  leaves equal values in the order of their indices (as numpy's sort does on the short
  arrays of the examples).\<close>

definition argsort_stable :: "f32 list \<Rightarrow> nat list" where
  "argsort_stable ds = sort_key (\<lambda>i. f32_key (ds ! i)) [0..<length ds]"


definition semantic_search ::
  "(string list \<Rightarrow> py_error + embedding list) \<Rightarrow> (f32 list \<Rightarrow> f32) \<Rightarrow>
   (f32 list \<Rightarrow> nat list) \<Rightarrow>
   string \<Rightarrow> string list \<Rightarrow> embedding list \<Rightarrow> int \<Rightarrow> py_error + string list" where
  "semantic_search encode add_reduce argsort query_text chunks embeddings top_k =
     (case encode [query_text] of
        Inl err \<Rightarrow> Inl err
      | Inr vs \<Rightarrow>
         (case vs of
            [] \<Rightarrow> Inl IndexError
          | query_embedding # _ \<Rightarrow>
             (case distances add_reduce embeddings query_embedding of
                Inl err \<Rightarrow> Inl err
              | Inr ds \<Rightarrow>
                 (let top_indices = py_slice_to (argsort ds) top_k
                  in map_result (py_getitem chunks) top_indices))))"

text \<open>Embedding models for the examples: every text has the embedding \<open>[0]\<close>, or a
  given embedding \<open>v\<close>.\<close>

definition encode_zero :: "string list \<Rightarrow> py_error + embedding list" where
  "encode_zero texts = Inr (map (\<lambda>t. [0]) texts)"

definition encode_const :: "embedding \<Rightarrow> string list \<Rightarrow> py_error + embedding list" where
  "encode_const v texts = Inr (map (\<lambda>t. v) texts)"

section \<open>Question generation\<close>

text \<open>\<open>sep.join(parts)\<close>.\<close>

fun py_join :: "string \<Rightarrow> string list \<Rightarrow> string" where
  "py_join sep [] = []"
| "py_join sep [p] = p"
| "py_join sep (p # ps) = p @ sep @ py_join sep ps"

definition prompt_parts :: "string \<Rightarrow> string \<Rightarrow> string \<Rightarrow> string list" where
  "prompt_parts retrieved_content co_text bloom_level =
     [''You are a Question Generator Agent.'',
      ''Course Outcome (CO): '' @ co_text,
      ''Bloom's Taxonomy Level: '' @ bloom_level,
      ''Based on the content below, generate multiple questions:'',
      ''- Two Objective Type Questions'',
      ''- Two Short Answer Type Questions'',
      ''Content:\<newline>'' @ retrieved_content,
      ''\<newline>Only output the questions in the following format:'',
      ''Objective Questions:'',
      ''1. <question 1>'',
      ''2. <question 2>'',
      ''Short Answer Questions:'',
      ''1. <question 1>'',
      ''2. <question 2>'']"

text \<open>
  The generative model is a parameter \<open>generate\<close>: the text of the reply to a prompt, or
  an exception (of the model's construction, of the call or of reading the reply).
  All of it runs inside the \<open>try\<close>, whose handler returns the sentinel string.
\<close>

definition generate_questions ::
  "(string \<Rightarrow> py_error + string) \<Rightarrow> string \<Rightarrow> string \<Rightarrow> string \<Rightarrow> string" where
  "generate_questions generate retrieved_content co_text bloom_level =
     (let full_prompt = py_join ''\<newline>'' (prompt_parts retrieved_content co_text bloom_level)
      in case generate full_prompt of
           Inr text \<Rightarrow> py_strip text
         | Inl err \<Rightarrow> ''Error generating questions. Please check logs.'')"

section \<open>Parsing the generated questions\<close>

record questions =
  objective :: "string list"
  subjective :: "string list"

text \<open>The body of each \<open>for\<close> statement of \<open>parse_questions\<close>: the line stripped, and the number
  prefix removed when \<open>''. ''\<close> occurs in its first three characters.\<close>

definition extract_question :: "string \<Rightarrow> string" where
  "extract_question line =
     (let question = py_strip line
      in if py_in ''. '' (take 3 question)
         then drop (nat (py_find ''. '' question + 2)) question
         else question)"

fun extract_questions :: "string list \<Rightarrow> string list" where
  "extract_questions [] = []"
| "extract_questions (line # rest) =
     (if py_strip line \<noteq> [] \<and> list_ex py_isdigit (take 2 line)
      then extract_question line # extract_questions rest
      else extract_questions rest)"

definition parse_questions :: "string \<Rightarrow> py_error + questions" where
  "parse_questions questions_text =
     (if py_in ''Objective Questions:'' questions_text
         \<and> py_in ''Short Answer Questions:'' questions_text
      then (case py_split ''Short Answer Questions:'' questions_text of
              p0 # p1 # _ \<Rightarrow>
                (let obj_part = py_strip (py_replace ''Objective Questions:'' [] p0);
                     subj_part = py_strip p1
                 in Inr \<lparr>objective = extract_questions (py_split ''\<newline>'' obj_part),
                         subjective = extract_questions (py_split ''\<newline>'' subj_part)\<rparr>)
            | _ \<Rightarrow> Inl IndexError)
      else Inr \<lparr>objective = [], subjective = []\<rparr>)"

text \<open>
  The shape of the replies the prompt asks for, used to state what the parser returns
  on them: a numbered line is a one-character number, \<open>''. ''\<close> and the question; a plain
  question is a non-empty single line that does not end in whitespace and contains
  neither marker.
\<close>

definition numbered_line :: "char \<Rightarrow> string \<Rightarrow> string" where
  "numbered_line d q = d # ''. '' @ q"

definition plain_question :: "string \<Rightarrow> bool" where
  "plain_question q =
     (q \<noteq> [] \<and> \<not> py_isspace (last q) \<and> CHR ''\<newline>'' \<notin> set q
      \<and> \<not> py_in ''Objective Questions:'' q \<and> \<not> py_in ''Short Answer Questions:'' q)"

section \<open>Initialising the vector database\<close>

text \<open>
  The module-wide state: \<open>chunks\<close> and \<open>embeddings\<close>, both \<open>None\<close> until set. The file
  system is the content of the transcript file, \<open>None\<close> when opening or reading it raises.
\<close>

record vector_db =
  chunks :: "string list option"
  embeddings :: "embedding list option"

definition load_file :: "string option \<Rightarrow> string" where
  "load_file file = (case file of Some content \<Rightarrow> content | None \<Rightarrow> [])"

text \<open>The two assignments \<open>chunks = cs\<close> and \<open>embeddings = embed_model.encode(chunks)\<close>,
  which occur three times in the source: the state they leave, and the exception if
  the embedding model raised one (then \<open>embeddings\<close> keeps its earlier value).\<close>

definition assign_store ::
  "(string list \<Rightarrow> py_error + embedding list) \<Rightarrow> string list \<Rightarrow> vector_db \<Rightarrow>
   py_error option \<times> vector_db" where
  "assign_store encode cs db =
     (case encode cs of
        Inl err \<Rightarrow> (Some err, db\<lparr>chunks := Some cs\<rparr>)
      | Inr es \<Rightarrow> (None, db\<lparr>chunks := Some cs, embeddings := Some es\<rparr>))"

text \<open>The \<open>try\<close> block, then the handler when the block raised. The result is the
  exception that leaves the function, if any (one raised by the handler itself), and
  the state.\<close>

definition initialize_vector_db ::
  "(string list \<Rightarrow> py_error + embedding list) \<Rightarrow> string option \<Rightarrow> vector_db \<Rightarrow>
   py_error option \<times> vector_db" where
  "initialize_vector_db encode file db =
     (let transcript = load_file file;
          (raised, db') =
            (if transcript \<noteq> []
             then assign_store encode (chunk_text transcript default_chunk_size) db
             else assign_store encode [''Sample content for initialization''] db)
      in case raised of
           None \<Rightarrow> (None, db')
         | Some err \<Rightarrow> assign_store encode [''Sample content for error case''] db')"

text \<open>What the embedding model guarantees: one embedding for each text.\<close>

definition encode_contract :: "(string list \<Rightarrow> py_error + embedding list) \<Rightarrow> bool" where
  "encode_contract encode = (\<forall>texts es. encode texts = Inr es \<longrightarrow> length es = length texts)"

section \<open>Properties of the chunker\<close>

lemma py_strip_Nil: "py_strip [] = []"
  by (simp add: py_strip_def)

lemma py_isspace_space: "py_isspace CHR '' ''"
  by (simp add: py_isspace_def)

lemma py_strip_snoc_space:
  assumes "py_isspace c"
  shows "length (py_strip (s @ [c])) \<le> length s"
proof (cases "\<forall>x\<in>set s. py_isspace x")
  case True
  then have "dropWhile py_isspace (s @ [c]) = []"
    using assms by simp
  then show ?thesis by (simp add: py_strip_def)
next
  case False
  then have "dropWhile py_isspace (s @ [c]) = dropWhile py_isspace s @ [c]"
    by (auto simp: dropWhile_append1)
  then have "py_strip (s @ [c]) = rev (dropWhile py_isspace (rev (dropWhile py_isspace s)))"
    using assms by (simp add: py_strip_def)
  then show ?thesis
    by (metis length_rev length_dropWhile_le le_trans)
qed

lemma py_strip_sentence:
  assumes "s \<noteq> []" and "\<not> py_isspace (hd s)"
  shows "py_strip (s @ ''. '') = s @ ''.''"
proof -
  obtain x xs where s: "s = x # xs" using assms(1) by (cases s) auto
  have "dropWhile py_isspace (s @ ''. '') = s @ ''. ''"
    using assms(2) s by simp
  then show ?thesis
    by (simp add: py_strip_def py_isspace_def)
qed

lemma py_split_no_dot: "CHR ''.'' \<notin> set s \<Longrightarrow> py_split ''. '' s = [s]"
  by (induction s) auto

lemma py_split_nonempty: "py_split sep s \<noteq> []"
  by (induction sep s rule: py_split.induct) (auto elim: cons_first.elims)

lemma cur_ok_strip:
  assumes "0 \<le> B" "cur_ok B S cur"
  shows "chunk_ok B S (py_strip cur)"
proof -
  consider "cur = []" | u where "cur = u @ ''. ''" "int (length cur) \<le> B + 2"
    | s where "s \<in> S" "B < int (length s)" "cur = s @ ''. ''"
    using assms(2) unfolding cur_ok_def by blast
  then show ?thesis
  proof cases
    case 1
    then show ?thesis using assms(1) by (simp add: chunk_ok_def py_strip_Nil)
  next
    case 2
    have "length (py_strip ((u @ ''.'') @ '' '')) \<le> length (u @ ''.'')"
      by (rule py_strip_snoc_space) (rule py_isspace_space)
    then have "int (length (py_strip cur)) \<le> B + 1"
      using 2 by simp
    then show ?thesis by (simp add: chunk_ok_def)
  next
    case 3
    then show ?thesis unfolding chunk_ok_def by blast
  qed
qed

text \<open>The loop keeps both invariants.\<close>

lemma chunk_loop_ok:
  assumes "0 \<le> B"
  shows "set ss \<subseteq> S \<Longrightarrow> cur_ok B S cur \<Longrightarrow> \<forall>c\<in>set acc. chunk_ok B S c \<Longrightarrow>
         chunk_loop B ss (acc, cur) = (acc', cur') \<Longrightarrow>
         (\<forall>c\<in>set acc'. chunk_ok B S c) \<and> cur_ok B S cur'"
proof (induction ss arbitrary: acc cur)
  case Nil
  then show ?case by simp
next
  case (Cons s ss)
  show ?case
  proof (cases "int (length cur) + int (length s) \<le> B")
    case True
    have "cur_ok B S (cur @ s @ ''. '')"
      unfolding cur_ok_def using True
      by (intro disjI2 disjI1 exI [of _ "cur @ s"]) simp
    moreover have "chunk_loop B ss (acc, cur @ s @ ''. '') = (acc', cur')"
      using Cons.prems(4) True by simp
    ultimately show ?thesis
      using Cons.IH [of "cur @ s @ ''. ''" acc] Cons.prems(1,3) by simp
  next
    case False
    have "cur_ok B S (s @ ''. '')"
    proof (cases "B < int (length s)")
      case True
      then show ?thesis unfolding cur_ok_def using Cons.prems(1) by auto
    next
      case False
      then show ?thesis unfolding cur_ok_def
        by (intro disjI2 disjI1 exI [of _ s]) simp
    qed
    moreover have "chunk_loop B ss (acc @ [py_strip cur], s @ ''. '') = (acc', cur')"
      using Cons.prems(4) False by simp
    moreover have "\<forall>c\<in>set (acc @ [py_strip cur]). chunk_ok B S c"
      using Cons.prems(3) cur_ok_strip [OF assms Cons.prems(2)] by simp
    ultimately show ?thesis
      using Cons.IH [of "s @ ''. ''" "acc @ [py_strip cur]"] Cons.prems(1) by simp
  qed
qed

lemma chunk_loop_long_first:
  "chunk_size < int (length s) \<Longrightarrow> chunk_loop chunk_size [s] ([], []) = ([[]], s @ ''. '')"
  by (simp add: py_strip_def)

lemma chunk_loop_cur_nonempty:
  "chunk_loop B ss (acc, cur) = (acc', cur') \<Longrightarrow> ss \<noteq> [] \<or> cur \<noteq> [] \<Longrightarrow> cur' \<noteq> []"
  by (induction ss arbitrary: acc cur) (auto split: if_splits)

lemma chunk_text_nonempty: "chunk_text text B \<noteq> []"
proof (cases "text = []")
  case True
  then show ?thesis by (simp add: chunk_text_def)
next
  case False
  obtain acc cur where loop: "chunk_loop B (py_split ''. '' text) ([], []) = (acc, cur)"
    by (cases "chunk_loop B (py_split ''. '' text) ([], [])") blast
  then have "cur \<noteq> []"
    using chunk_loop_cur_nonempty [OF loop] py_split_nonempty by blast
  then show ?thesis using False loop by (simp add: chunk_text_def)
qed

lemma py_strip_sentence_whole: "py_strip (s @ ''. '') = dropWhile py_isspace s @ ''.''"
proof -
  have "dropWhile py_isspace (s @ ''. '') = dropWhile py_isspace s @ ''. ''"
    by (induction s) (auto simp: py_isspace_def)
  then show ?thesis
    by (simp add: py_strip_def py_isspace_def)
qed

text \<open>Once a sentence longer than the budget is the running chunk, or its chunk has
  been appended, it stays so to the end of the loop.\<close>

lemma chunk_loop_keeps:
  assumes "B < int (length s)"
  shows "chunk_loop B ss (acc, cur) = (acc', cur') \<Longrightarrow>
         py_strip (s @ ''. '') \<in> set acc \<or> cur = s @ ''. '' \<Longrightarrow>
         py_strip (s @ ''. '') \<in> set acc' \<or> cur' = s @ ''. ''"
proof (induction ss arbitrary: acc cur)
  case Nil
  then show ?case by simp
next
  case (Cons t ss)
  show ?case
  proof (cases "int (length cur) + int (length t) \<le> B")
    case True
    then have "cur \<noteq> s @ ''. ''" using assms by auto
    then have "py_strip (s @ ''. '') \<in> set acc" using Cons.prems(2) by blast
    moreover have "chunk_loop B ss (acc, cur @ t @ ''. '') = (acc', cur')"
      using Cons.prems(1) True by simp
    ultimately show ?thesis using Cons.IH by blast
  next
    case False
    have "py_strip (s @ ''. '') \<in> set (acc @ [py_strip cur])"
      using Cons.prems(2) by auto
    moreover have "chunk_loop B ss (acc @ [py_strip cur], t @ ''. '') = (acc', cur')"
      using Cons.prems(1) False by simp
    ultimately show ?thesis using Cons.IH by blast
  qed
qed

lemma chunk_loop_long_sentence:
  assumes "B < int (length s)"
  shows "s \<in> set ss \<Longrightarrow> chunk_loop B ss (acc, cur) = (acc', cur') \<Longrightarrow>
         py_strip (s @ ''. '') \<in> set acc' \<or> cur' = s @ ''. ''"
proof (induction ss arbitrary: acc cur)
  case Nil
  then show ?case by simp
next
  case (Cons t ss)
  show ?case
  proof (cases "t = s")
    case True
    then have "\<not> int (length cur) + int (length t) \<le> B" using assms by simp
    then have "chunk_loop B ss (acc @ [py_strip cur], s @ ''. '') = (acc', cur')"
      using Cons.prems(2) True by simp
    then show ?thesis
      using chunk_loop_keeps [OF assms] by blast
  next
    case False
    then have in_rest: "s \<in> set ss" using Cons.prems(1) by simp
    show ?thesis
    proof (cases "int (length cur) + int (length t) \<le> B")
      case True
      then have "chunk_loop B ss (acc, cur @ t @ ''. '') = (acc', cur')"
        using Cons.prems(2) by simp
      then show ?thesis using Cons.IH [OF in_rest] by blast
    next
      case False
      then have "chunk_loop B ss (acc @ [py_strip cur], t @ ''. '') = (acc', cur')"
        using Cons.prems(2) by simp
      then show ?thesis using Cons.IH [OF in_rest] by blast
    qed
  qed
qed

lemma long_sentence_chunk:
  assumes "text \<noteq> []" and "s \<in> set (py_split ''. '' text)" and "chunk_size < int (length s)"
  shows "py_strip (s @ ''. '') \<in> set (chunk_text text chunk_size)"
proof -
  obtain acc cur where loop: "chunk_loop chunk_size (py_split ''. '' text) ([], []) = (acc, cur)"
    by (cases "chunk_loop chunk_size (py_split ''. '' text) ([], [])") blast
  have ne: "cur \<noteq> []"
    using chunk_loop_cur_nonempty [OF loop] py_split_nonempty by blast
  have "py_strip (s @ ''. '') \<in> set acc \<or> cur = s @ ''. ''"
    by (rule chunk_loop_long_sentence [OF assms(3) assms(2) loop])
  then show ?thesis
    using assms(1) loop ne by (auto simp: chunk_text_def)
qed

text \<open>
  C3, as the code has it. The test of the loop compares the budget with the lengths
  before the separator \<open>''. ''\<close> is appended, so a chunk may be one character longer than
  the budget: for a non-empty text and a budget \<open>chunk_size \<ge> 0\<close>, every chunk is at
  most \<open>chunk_size + 1\<close> long, or it is a single sentence longer than the budget. Such
  a sentence is never truncated: it is a chunk of its own, whole but for its leading
  whitespace, followed by the full stop.
\<close>

theorem chunk_text_length_bound:
  assumes "text \<noteq> []" and "0 \<le> chunk_size"
  shows "(\<forall>c\<in>set (chunk_text text chunk_size).
            int (length c) \<le> chunk_size + 1 \<or>
            (\<exists>s\<in>set (py_split ''. '' text).
               chunk_size < int (length s) \<and> c = py_strip (s @ ''. ''))) \<and>
         (\<forall>s\<in>set (py_split ''. '' text). chunk_size < int (length s) \<longrightarrow>
            py_strip (s @ ''. '') \<in> set (chunk_text text chunk_size) \<and>
            py_strip (s @ ''. '') = dropWhile py_isspace s @ ''.'')"
proof -
  let ?S = "set (py_split ''. '' text)"
  obtain acc cur where loop: "chunk_loop chunk_size (py_split ''. '' text) ([], []) = (acc, cur)"
    by (cases "chunk_loop chunk_size (py_split ''. '' text) ([], [])") blast
  have "cur_ok chunk_size ?S []" by (simp add: cur_ok_def)
  then have ok: "(\<forall>c\<in>set acc. chunk_ok chunk_size ?S c) \<and> cur_ok chunk_size ?S cur"
    using chunk_loop_ok [OF assms(2) _ _ _ loop, of ?S] by simp
  then have last: "chunk_ok chunk_size ?S (py_strip cur)"
    using cur_ok_strip [OF assms(2)] by blast
  have "\<forall>c\<in>set (chunk_text text chunk_size). chunk_ok chunk_size ?S c"
    using assms(1) loop ok last by (auto simp: chunk_text_def split: if_splits)
  then have bound: "\<forall>c\<in>set (chunk_text text chunk_size).
            int (length c) \<le> chunk_size + 1 \<or>
            (\<exists>s\<in>?S. chunk_size < int (length s) \<and> c = py_strip (s @ ''. ''))"
    by (simp add: chunk_ok_def)
  have whole: "\<forall>s\<in>?S. chunk_size < int (length s) \<longrightarrow>
            py_strip (s @ ''. '') \<in> set (chunk_text text chunk_size) \<and>
            py_strip (s @ ''. '') = dropWhile py_isspace s @ ''.''"
    using long_sentence_chunk [OF assms(1)] py_strip_sentence_whole by blast
  from bound whole show ?thesis by blast
qed

theorem chunk_text_length_bound_witness:
  "''abcdef. gh'' \<noteq> [] \<and> (0::int) \<le> 3 \<and>
   ''abcdef'' \<in> set (py_split ''. '' ''abcdef. gh'') \<and> 3 < int (length ''abcdef'') \<and>
   ''gh.'' \<in> set (chunk_text ''abcdef. gh'' 3) \<and> int (length ''gh.'') \<le> 3 + 1 \<and>
   py_strip (''abcdef'' @ ''. '') \<in> set (chunk_text ''abcdef. gh'' 3) \<and>
   py_strip (''abcdef'' @ ''. '') = dropWhile py_isspace ''abcdef'' @ ''.''"
proof -
  have h: "''abcdef. gh'' \<noteq> []" "(0::int) \<le> 3" by simp_all
  have m: "''abcdef'' \<in> set (py_split ''. '' ''abcdef. gh'')" "3 < int (length ''abcdef'')"
    by simp_all
  have g: "''gh.'' \<in> set (chunk_text ''abcdef. gh'' 3)"
    by (simp add: chunk_text_def py_strip_def py_isspace_def)
  show ?thesis
    using chunk_text_length_bound [OF h] h m g by auto
qed

text \<open>
  C3 as stated fails: with the budget 6 the text \<open>''ab. cd''\<close> has the two sentences
  \<open>''ab''\<close> and \<open>''cd''\<close>, neither longer than the budget, and its only chunk is 7
  characters long.
\<close>

theorem chunk_text_over_budget:
  "chunk_text ''ab. cd'' 6 = [''ab. cd.''] \<and> py_split ''. '' ''ab. cd'' = [''ab'', ''cd'']
   \<and> length ''ab. cd.'' = 7"
  by (simp add: chunk_text_def py_strip_def py_isspace_def)

text \<open>
  C4 fails on the code: when the first sentence is longer than the budget, the loop
  flushes the still empty running chunk, and the first chunk returned is the empty
  string. Here with the budget 3, and with the default budget on a sentence of 501
  characters.
\<close>

theorem chunk_text_empty_chunk:
  "chunk_text ''abcdef'' 3 = ['''', ''abcdef.''] \<and>
   chunk_text (replicate 501 CHR ''a'') default_chunk_size
     = ['''', replicate 501 CHR ''a'' @ ''.'']"
proof -
  let ?s = "replicate 501 CHR ''a''"
  have a: "chunk_text ''abcdef'' 3 = ['''', ''abcdef.'']"
    by (simp add: chunk_text_def py_strip_def py_isspace_def)
  have "py_split ''. '' ?s = [?s]" by (rule py_split_no_dot) simp
  moreover have "chunk_loop default_chunk_size [?s] ([], []) = ([[]], ?s @ ''. '')"
    by (rule chunk_loop_long_first) (simp add: default_chunk_size_def)
  moreover have "py_strip (?s @ ''. '') = ?s @ ''.''"
    by (rule py_strip_sentence) (simp_all add: py_isspace_def hd_replicate)
  moreover have "?s \<noteq> []" by simp
  ultimately have "chunk_text ?s default_chunk_size = ['''', ?s @ ''.'']"
    by (simp add: chunk_text_def)
  with a show ?thesis by simp
qed

text \<open>
  C5: on the empty text, whatever the budget, \<open>chunk_text\<close> returns the list of the one
  placeholder chunk.
\<close>

theorem chunk_text_empty: "chunk_text [] chunk_size = [''Sample text for empty transcript'']"
  by (simp add: chunk_text_def)

section \<open>Properties of the initialiser\<close>

lemma encode_zero_contract: "encode_contract encode_zero"
  by (simp add: encode_contract_def encode_zero_def)

text \<open>
  C6: when the embedding model returns one embedding for each text, every return of
  \<open>initialize_vector_db\<close> (the result \<open>None\<close>: no exception leaves the function), from any
  file and any earlier state, leaves both \<open>chunks\<close> and \<open>embeddings\<close> set, of the same
  length, and not empty.
\<close>

theorem initialize_vector_db_store:
  assumes "encode_contract encode"
    and "initialize_vector_db encode file db = (None, db')"
  shows "\<exists>cs es. chunks db' = Some cs \<and> embeddings db' = Some es
           \<and> length es = length cs \<and> cs \<noteq> [] \<and> es \<noteq> []"
proof -
  have len: "\<And>texts es. encode texts = Inr es \<Longrightarrow> length es = length texts"
    using assms(1) unfolding encode_contract_def by blast
  show ?thesis
    using assms(2) chunk_text_nonempty
    unfolding initialize_vector_db_def assign_store_def Let_def
    by (auto split: sum.splits if_splits prod.splits option.splits dest!: len)
qed

theorem initialize_vector_db_store_witness:
  "encode_contract encode_zero \<and>
   initialize_vector_db encode_zero (Some ''ab. cd'') \<lparr>chunks = None, embeddings = None\<rparr>
     = (None, \<lparr>chunks = Some [''ab. cd.''], embeddings = Some [[0]]\<rparr>) \<and>
   (\<exists>cs es. chunks \<lparr>chunks = Some [''ab. cd.''], embeddings = Some [[0]]\<rparr> = Some cs
      \<and> embeddings \<lparr>chunks = Some [''ab. cd.''], embeddings = Some [[0::real]]\<rparr> = Some es
      \<and> length es = length cs \<and> cs \<noteq> [] \<and> es \<noteq> [])"
proof -
  have run: "initialize_vector_db encode_zero (Some ''ab. cd'') \<lparr>chunks = None, embeddings = None\<rparr>
     = (None, \<lparr>chunks = Some [''ab. cd.''], embeddings = Some [[0]]\<rparr>)"
    by (simp add: initialize_vector_db_def assign_store_def load_file_def encode_zero_def
        chunk_text_def default_chunk_size_def py_strip_def py_isspace_def)
  show ?thesis
    using initialize_vector_db_store [OF encode_zero_contract run] encode_zero_contract run
    by blast
qed

section \<open>Properties of the generator call and of the parser\<close>

text \<open>
  C9: when the generation call raises on the prompt built from the inputs,
  \<open>generate_questions\<close> returns the sentinel string; its result is a string in every
  case, no exception leaves it.
\<close>

theorem generate_questions_failure:
  assumes "generate (py_join ''\<newline>'' (prompt_parts retrieved_content co_text bloom_level)) = Inl err"
  shows "generate_questions generate retrieved_content co_text bloom_level
           = ''Error generating questions. Please check logs.''"
  using assms by (simp add: generate_questions_def)

theorem generate_questions_failure_witness:
  "(\<lambda>p. Inl ExternalError) (py_join ''\<newline>'' (prompt_parts ''c'' ''co'' ''Apply'')) = Inl ExternalError \<and>
   generate_questions (\<lambda>p. Inl ExternalError) ''c'' ''co'' ''Apply''
           = ''Error generating questions. Please check logs.''"
  using generate_questions_failure [of "\<lambda>p. Inl ExternalError" "''c''" "''co''" "''Apply''" ExternalError]
  by simp

text \<open>
  C7: when one of the two markers does not occur in the reply, \<open>parse_questions\<close>
  returns the two empty lists, and no error.
\<close>

theorem parse_questions_missing_marker:
  assumes "\<not> py_in ''Objective Questions:'' questions_text
           \<or> \<not> py_in ''Short Answer Questions:'' questions_text"
  shows "parse_questions questions_text = Inr \<lparr>objective = [], subjective = []\<rparr>"
  using assms by (auto simp: parse_questions_def)

theorem parse_questions_missing_marker_witness:
  "\<not> py_in ''Short Answer Questions:'' ''Objective Questions:\<newline>1. A'' \<and>
   parse_questions ''Objective Questions:\<newline>1. A'' = Inr \<lparr>objective = [], subjective = []\<rparr>"
proof -
  have h: "\<not> py_in ''Short Answer Questions:'' ''Objective Questions:\<newline>1. A''"
    by simp
  show ?thesis
    using h parse_questions_missing_marker [of "''Objective Questions:\<newline>1. A''"] by blast
qed

section \<open>Properties of the semantic search\<close>

lemma map_result_all:
  "\<forall>x\<in>set xs. f x = Inr (g x) \<Longrightarrow> map_result f xs = Inr (map g xs)"
  by (induction xs) auto

lemma row_distance_same_dim:
  "length e = length q \<Longrightarrow>
   row_distance add_reduce e q
     = Inr (row_norm add_reduce (map2 (\<lambda>a b. round_f32 (a - b)) e q))"
  by (simp add: row_distance_def np_subtract_row_def)

lemma distances_same_dim:
  assumes "es \<noteq> []" and "\<forall>e\<in>set es. length e = length q"
  shows "distances add_reduce es q
           = Inr (map (\<lambda>e. row_norm add_reduce (map2 (\<lambda>a b. round_f32 (a - b)) e q)) es)"
proof -
  have "map_result (\<lambda>e. row_distance add_reduce e q) es
          = Inr (map (\<lambda>e. row_norm add_reduce (map2 (\<lambda>a b. round_f32 (a - b)) e q)) es)"
    by (rule map_result_all) (use assms(2) in \<open>simp add: row_distance_same_dim\<close>)
  then show ?thesis using assms(1) by (simp add: distances_def)
qed

lemma retrieve_in_range:
  assumes "set idxs \<subseteq> {0..<length cs}"
  shows "map_result (py_getitem cs) idxs = Inr (map ((!) cs) idxs)"
  by (rule map_result_all) (use assms in \<open>auto simp: py_getitem_def\<close>)

lemma set_py_slice_to: "set (py_slice_to xs k) \<subseteq> set xs"
  by (auto simp: py_slice_to_def dest: in_set_takeD)

lemma round_f32_zero: "round_f32 0 = Finite 0"
  by (simp add: round_f32_def)

lemma sum_order_zeros:
  "sum_order xs y \<Longrightarrow> \<forall>x\<in>set xs. x = Finite 0 \<Longrightarrow> y = Finite 0"
proof (induction rule: sum_order.induct)
  case (sum_reorder xs a ys)
  then show ?case by (metis mset_eq_setD)
qed (auto simp: round_f32_zero)

lemma sum_left_contract: "reduce_contract sum_left"
  unfolding reduce_contract_def sum_left_def
proof
  fix xs show "sum_order xs (foldl f32_add (Finite 0) xs)"
  proof (induction xs rule: rev_induct)
    case Nil
    then show ?case by (simp add: sum_empty)
  next
    case (snoc x xs)
    have "sum_order (xs @ [x]) (f32_add (foldl f32_add (Finite 0) xs) x)"
      by (rule sum_append [OF snoc sum_single])
    then show ?case by simp
  qed
qed

lemma isqrt_nonneg: "0 \<le> isqrt n"
proof (induction n rule: isqrt.induct)
  case (1 n)
  show ?case
  proof (cases "n < 2")
    case True
    then show ?thesis by (subst isqrt.simps) simp
  next
    case False
    then show ?thesis using 1 by (subst isqrt.simps) (simp add: Let_def)
  qed
qed

lemma pow2_pos: "0 < pow2 e"
  by (simp add: pow2_def)

text \<open>A computed norm is a number that is not negative, an infinity or NaN.\<close>

lemma f32_sqrt_range:
  "f32_sqrt x = NaN \<or> f32_sqrt x = PInf \<or> (\<exists>r. 0 \<le> r \<and> f32_sqrt x = Finite r)"
proof (cases x)
  case (Finite a)
  show ?thesis
  proof (cases "0 < a")
    case True
    define u where "u = pow2 (ilog2 a div 2 - 23)"
    define n0 where "n0 = isqrt \<lfloor>a / (u * u)\<rfloor>"
    have "0 \<le> n0" by (simp add: n0_def isqrt_nonneg)
    moreover have "0 < u" by (simp add: u_def pow2_pos)
    ultimately show ?thesis
      using True Finite by (auto simp: Let_def u_def n0_def)
  next
    case False
    then show ?thesis using Finite by auto
  qed
qed simp_all

lemma f32_le_zero_norm:
  assumes "f32_le (row_norm add_reduce d) (Finite 0)"
  shows "row_norm add_reduce d = Finite 0"
  using assms f32_sqrt_range [of "add_reduce (map (\<lambda>x. f32_mul x x) d)"]
  by (auto simp: row_norm_def)

lemma row_norm_zero:
  assumes "reduce_contract add_reduce" and "\<forall>x\<in>set d. x = Finite 0"
  shows "row_norm add_reduce d = Finite 0"
proof -
  have "sum_order (map (\<lambda>x. f32_mul x x) d) (add_reduce (map (\<lambda>x. f32_mul x x) d))"
    using assms(1) by (simp add: reduce_contract_def)
  moreover have "\<forall>y\<in>set (map (\<lambda>x. f32_mul x x) d). y = Finite 0"
    using assms(2) by (auto simp: round_f32_zero)
  ultimately have "add_reduce (map (\<lambda>x. f32_mul x x) d) = Finite 0"
    by (rule sum_order_zeros)
  then show ?thesis by (simp add: row_norm_def)
qed

lemma self_difference_zero: "\<forall>x\<in>set (map2 (\<lambda>a b. round_f32 (a - b)) q q). x = Finite 0"
  by (induction q) (auto simp: round_f32_zero)

lemma f32_key_le: "f32_key x \<le> f32_key y \<longleftrightarrow> f32_le x y"
  by (cases x; cases y) auto

lemma argsort_stable_contract: "argsort_contract argsort_stable"
proof -
  have "sorted_wrt f32_le (map ((!) ds) (argsort_stable ds))" for ds
  proof -
    have "sorted (map (\<lambda>i. f32_key (ds ! i)) (argsort_stable ds))"
      unfolding argsort_stable_def by (rule sorted_sort_key)
    then have "sorted_wrt (\<lambda>i j. f32_key (ds ! i) \<le> f32_key (ds ! j)) (argsort_stable ds)"
      by (simp add: sorted_wrt_map)
    then show ?thesis by (simp add: sorted_wrt_map f32_key_le)
  qed
  then show ?thesis
    by (simp add: argsort_contract_def) (simp add: argsort_stable_def)
qed

lemma encode_zero_query: "encode_zero [query_text] = Inr [[0]]"
  by (simp add: encode_zero_def)

lemma encode_const_query: "encode_const v [query_text] = Inr [v]"
  by (simp add: encode_const_def)

text \<open>With a query that the model embeds and a store that is not empty and of matching
  shape, the search returns the chunks at the indices that \<open>argsort\<close> puts first.\<close>

lemma semantic_search_result:
  assumes "argsort_contract argsort"
    and "encode [query_text] = Inr [q]"
    and "length cs = length es"
    and "es \<noteq> []"
    and "\<forall>e\<in>set es. length e = length q"
  shows "\<exists>ds. distances add_reduce es q = Inr ds \<and> length ds = length es
           \<and> (\<forall>i<length es. row_distance add_reduce (es ! i) q = Inr (ds ! i))
           \<and> semantic_search encode add_reduce argsort query_text cs es top_k
               = Inr (map ((!) cs) (py_slice_to (argsort ds) top_k))"
proof -
  let ?ds = "map (\<lambda>e. row_norm add_reduce (map2 (\<lambda>a b. round_f32 (a - b)) e q)) es"
  have d: "distances add_reduce es q = Inr ?ds"
    by (rule distances_same_dim [OF assms(4) assms(5)])
  have "set (argsort ?ds) = {0..<length ?ds}"
    using assms(1) unfolding argsort_contract_def by blast
  then have "set (py_slice_to (argsort ?ds) top_k) \<subseteq> {0..<length cs}"
    using set_py_slice_to [of "argsort ?ds" top_k] assms(3) by simp
  then have "map_result (py_getitem cs) (py_slice_to (argsort ?ds) top_k)
               = Inr (map ((!) cs) (py_slice_to (argsort ?ds) top_k))"
    by (rule retrieve_in_range)
  then have "semantic_search encode add_reduce argsort query_text cs es top_k
               = Inr (map ((!) cs) (py_slice_to (argsort ?ds) top_k))"
    using assms(2) d by (simp add: semantic_search_def)
  moreover have "\<forall>i<length es. row_distance add_reduce (es ! i) q = Inr (?ds ! i)"
    using assms(5) by (simp add: row_distance_same_dim)
  ultimately show ?thesis using d by simp
qed

text \<open>
  C10, as the code has it: for a store that is not empty, of \<open>n\<close> chunks and \<open>n\<close>
  embeddings of the dimension of the query's embedding, and a result count
  \<open>top_k \<ge> 0\<close>, \<open>semantic_search\<close> returns (no IndexError, no other exception) exactly
  \<open>min(top_k, n)\<close> chunks; so a \<open>top_k\<close> above \<open>n\<close> gives all \<open>n\<close> chunks.
\<close>

theorem semantic_search_length:
  assumes "argsort_contract argsort"
    and "encode [query_text] = Inr [query_embedding]"
    and "length stored_chunks = length stored_embeddings"
    and "stored_embeddings \<noteq> []"
    and "\<forall>e\<in>set stored_embeddings. length e = length query_embedding"
    and "0 \<le> top_k"
  shows "\<exists>retrieved_chunks.
           semantic_search encode add_reduce argsort query_text stored_chunks
               stored_embeddings top_k
             = Inr retrieved_chunks
           \<and> length retrieved_chunks = min (nat top_k) (length stored_chunks)"
proof -
  obtain ds where ds: "length ds = length stored_embeddings"
    "semantic_search encode add_reduce argsort query_text stored_chunks stored_embeddings top_k
       = Inr (map ((!) stored_chunks) (py_slice_to (argsort ds) top_k))"
    using semantic_search_result [where add_reduce = add_reduce and top_k = top_k
        and argsort = argsort and encode = encode and query_text = query_text
        and q = query_embedding and cs = stored_chunks and es = stored_embeddings]
      assms(1) assms(2) assms(3) assms(4) assms(5)
    by blast
  have "distinct (argsort ds)" and "set (argsort ds) = {0..<length ds}"
    using assms(1) unfolding argsort_contract_def by blast+
  then have "length (argsort ds) = length stored_chunks"
    using distinct_card [of "argsort ds"] assms(3) ds(1) by simp
  then have "length (py_slice_to (argsort ds) top_k) = min (nat top_k) (length stored_chunks)"
    using assms(6) by (simp add: py_slice_to_def min.commute)
  then show ?thesis using ds(2) by simp
qed

theorem semantic_search_length_witness:
  "argsort_contract argsort_stable \<and> encode_zero [''q''] = Inr [[0]] \<and> (0::int) \<le> 5 \<and>
   (\<exists>retrieved_chunks.
      semantic_search encode_zero sum_left argsort_stable ''q'' [''a'', ''b''] [[1], [0]] 5
        = Inr retrieved_chunks
      \<and> length retrieved_chunks = min (nat 5) (length [''a'', ''b'']))"
proof -
  have "\<forall>e\<in>set [[1], [0::real]]. length e = length [0::real]" by simp
  then show ?thesis
    using semantic_search_length [where argsort = argsort_stable and encode = encode_zero
        and add_reduce = sum_left
        and query_text = "''q''" and query_embedding = "[0]" and stored_chunks = "[''a'', ''b'']"
        and stored_embeddings = "[[1], [0]]" and top_k = 5]
      argsort_stable_contract encode_zero_query
    by simp
qed

text \<open>
  C10 as stated fails for a negative \<open>top_k\<close>, which the slice \<open>[:top_k]\<close> counts from the
  end: with \<open>top_k = -1\<close> on three chunks the search returns two chunks, and
  \<open>min(top_k, n)\<close> is -1.
\<close>

theorem semantic_search_negative_top_k:
  "semantic_search encode_zero sum_left argsort_stable ''q'' [''a'', ''b'', ''c'']
     [[0], [1], [2]] (- 1) = Inr [''a'', ''b''] \<and>
   length [''a'', ''b''] = 2 \<and> min (- 1) (int (length [''a'', ''b'', ''c''])) = - 1"
proof -
  have "semantic_search encode_zero sum_left argsort_stable ''q'' [''a'', ''b'', ''c'']
     [[0], [1], [2]] (- 1) = Inr [''a'', ''b'']"
    by code_simp
  then show ?thesis by simp
qed

text \<open>On the store of no embeddings the search raises.\<close>

lemma semantic_search_empty_store:
  "encode [query_text] = Inr [q] \<Longrightarrow>
   semantic_search encode add_reduce argsort query_text cs [] top_k = Inl ValueError"
  by (simp add: semantic_search_def distances_def)

text \<open>
  C1, as the code has it: when the stored embedding at index \<open>j\<close> equals the embedding
  of the query and no other stored embedding has the computed distance 0 to it, the
  computed distance at \<open>j\<close> is 0 and, for \<open>top_k \<ge> 1\<close>, the first chunk returned is the
  chunk at index \<open>j\<close>. (The second condition implies that no other stored embedding
  equals the query's.)
\<close>

theorem semantic_search_exact_match:
  assumes "argsort_contract argsort"
    and "reduce_contract add_reduce"
    and "encode [query_text] = Inr [query_embedding]"
    and "length stored_chunks = length stored_embeddings"
    and "\<forall>e\<in>set stored_embeddings. length e = length query_embedding"
    and "j < length stored_embeddings"
    and "stored_embeddings ! j = query_embedding"
    and "\<forall>i<length stored_embeddings. i \<noteq> j \<longrightarrow>
           row_distance add_reduce (stored_embeddings ! i) query_embedding \<noteq> Inr (Finite 0)"
    and "1 \<le> top_k"
  shows "\<exists>ds rest.
           distances add_reduce stored_embeddings query_embedding = Inr ds \<and> ds ! j = Finite 0
           \<and> semantic_search encode add_reduce argsort query_text stored_chunks
                 stored_embeddings top_k
               = Inr (stored_chunks ! j # rest)"
proof -
  have ne: "stored_embeddings \<noteq> []" using assms(6) by auto
  obtain ds where ds: "distances add_reduce stored_embeddings query_embedding = Inr ds"
    "length ds = length stored_embeddings"
    "\<forall>i<length stored_embeddings.
       row_distance add_reduce (stored_embeddings ! i) query_embedding = Inr (ds ! i)"
    "semantic_search encode add_reduce argsort query_text stored_chunks stored_embeddings top_k
       = Inr (map ((!) stored_chunks) (py_slice_to (argsort ds) top_k))"
    using semantic_search_result [where add_reduce = add_reduce and top_k = top_k
        and argsort = argsort and encode = encode and query_text = query_text
        and q = query_embedding and cs = stored_chunks and es = stored_embeddings]
      assms(1) assms(3) assms(4) ne assms(5)
    by blast
  let ?idx = "argsort ds"
  have "row_distance add_reduce query_embedding query_embedding = Inr (Finite 0)"
    using row_norm_zero [OF assms(2) self_difference_zero [of query_embedding]]
    by (simp add: row_distance_same_dim)
  then have zero: "ds ! j = Finite 0"
    using ds(3) assms(6,7) by auto
  have norm: "\<exists>d. ds ! i = row_norm add_reduce d" if "i < length stored_embeddings" for i
  proof -
    have "length (stored_embeddings ! i) = length query_embedding"
      using assms(5) that by simp
    then have "row_distance add_reduce (stored_embeddings ! i) query_embedding
                 = Inr (row_norm add_reduce
                     (map2 (\<lambda>a b. round_f32 (a - b)) (stored_embeddings ! i) query_embedding))"
      by (rule row_distance_same_dim)
    moreover have "row_distance add_reduce (stored_embeddings ! i) query_embedding = Inr (ds ! i)"
      using ds(3) that by blast
    ultimately show ?thesis by auto
  qed
  have only: "i = j" if "i < length stored_embeddings" "f32_le (ds ! i) (Finite 0)" for i
  proof (rule ccontr)
    assume "i \<noteq> j"
    then have "ds ! i \<noteq> Finite 0"
      using assms(8) ds(3) that(1) by auto
    moreover have "ds ! i = Finite 0"
      using norm [OF that(1)] that(2) f32_le_zero_norm by auto
    ultimately show False by blast
  qed
  have idx: "distinct ?idx" "set ?idx = {0..<length ds}" "sorted_wrt f32_le (map ((!) ds) ?idx)"
    using assms(1) unfolding argsort_contract_def by blast+
  have "j \<in> set ?idx" using idx(2) assms(6) ds(2) by simp
  then obtain m where m: "m < length ?idx" "?idx ! m = j"
    by (auto simp: in_set_conv_nth)
  then have ne_idx: "?idx \<noteq> []" by auto
  have first: "?idx ! 0 < length stored_embeddings"
  proof -
    have "?idx ! 0 \<in> set ?idx" using ne_idx by simp
    then show ?thesis using idx(2) ds(2) by simp
  qed
  have "f32_le (ds ! (?idx ! 0)) (Finite 0)"
  proof (cases "m = 0")
    case True
    then show ?thesis using m zero by simp
  next
    case False
    then have "f32_le (map ((!) ds) ?idx ! 0) (map ((!) ds) ?idx ! m)"
      using idx(3) m(1) by (intro sorted_wrt_nth_less) simp_all
    then show ?thesis using m zero ne_idx by simp
  qed
  then have "?idx ! 0 = j" using only [OF first] by blast
  then obtain tl_idx where "?idx = j # tl_idx"
    using ne_idx by (cases ?idx) auto
  then have "\<exists>more. py_slice_to ?idx top_k = j # more"
    using assms(9) by (auto simp: py_slice_to_def take_Cons')
  then obtain more where "py_slice_to ?idx top_k = j # more" by blast
  then have "semantic_search encode add_reduce argsort query_text stored_chunks
                 stored_embeddings top_k
               = Inr (stored_chunks ! j # map ((!) stored_chunks) more)"
    using ds(4) by simp
  with ds(1) zero show ?thesis by blast
qed

theorem semantic_search_exact_match_witness:
  "argsort_contract argsort_stable \<and> reduce_contract sum_left \<and>
   encode_zero [''q''] = Inr [[0]] \<and> [[1], [0::real]] ! 1 = [0] \<and>
   row_distance sum_left ([[1], [0]] ! 0) [0] = Inr (Finite 1) \<and>
   (\<exists>ds rest.
      distances sum_left [[1], [0]] [0] = Inr ds \<and> ds ! 1 = Finite 0
      \<and> semantic_search encode_zero sum_left argsort_stable ''q'' [''a'', ''b''] [[1], [0]] 1
          = Inr ([''a'', ''b''] ! 1 # rest))"
proof -
  have dims: "\<forall>e\<in>set [[1], [0::real]]. length e = length [0::real]" by simp
  have d0: "row_distance sum_left ([[1], [0]] ! 0) [0] = Inr (Finite 1)"
    by code_simp
  have others: "\<forall>i<length [[1], [0::real]]. i \<noteq> 1 \<longrightarrow>
      row_distance sum_left ([[1], [0]] ! i) [0] \<noteq> Inr (Finite 0)"
    using d0 by (auto simp: less_Suc_eq)
  have "\<exists>ds rest.
      distances sum_left [[1], [0]] [0] = Inr ds \<and> ds ! 1 = Finite 0
      \<and> semantic_search encode_zero sum_left argsort_stable ''q'' [''a'', ''b''] [[1], [0]] 1
          = Inr ([''a'', ''b''] ! 1 # rest)"
    using semantic_search_exact_match [where argsort = argsort_stable and encode = encode_zero
        and add_reduce = sum_left
        and query_text = "''q''" and query_embedding = "[0]" and stored_chunks = "[''a'', ''b'']"
        and stored_embeddings = "[[1], [0]]" and top_k = 1 and j = 1]
      argsort_stable_contract sum_left_contract encode_zero_query dims others
    by simp
  then show ?thesis
    using argsort_stable_contract sum_left_contract encode_zero_query d0 by simp
qed

text \<open>
  C1 as stated fails when a square underflows: the second stored embedding equals the
  query's and the first does not, but the square of their difference \<open>1 / 2 ^ 100\<close>
  rounds to 0 in float32, both computed distances are 0, and the chunk returned is the
  first.
\<close>

theorem semantic_search_underflow_tie:
  "[[1 / 2 ^ 100], [0::real]] ! 1 = [0] \<and> [[1 / 2 ^ 100], [0::real]] ! 0 \<noteq> [0] \<and>
   distances sum_left [[1 / 2 ^ 100], [0]] [0] = Inr [Finite 0, Finite 0] \<and>
   semantic_search encode_zero sum_left argsort_stable ''q'' [''a'', ''b'']
     [[1 / 2 ^ 100], [0]] 1 = Inr [''a'']"
proof -
  have "distances sum_left [[1 / 2 ^ 100], [0]] [0] = Inr [Finite 0, Finite 0]"
    by code_simp
  moreover have "semantic_search encode_zero sum_left argsort_stable ''q'' [''a'', ''b'']
     [[1 / 2 ^ 100], [0]] 1 = Inr [''a'']"
    by code_simp
  ultimately show ?thesis by simp
qed

text \<open>Whatever the order of equal distances and the order of the additions: the two
  stores below have the same computed distances, so the search returns the same chunk
  for both, and the exact match is the second chunk of one and the first of the other.\<close>

lemma row_distance_square_underflow:
  assumes "reduce_contract add_reduce"
    and "f32_mul (round_f32 x) (round_f32 x) = Finite 0"
  shows "row_distance add_reduce [x] [0] = Inr (Finite 0)"
proof -
  have "sum_order [Finite 0] (add_reduce [Finite 0])"
    using assms(1) by (simp add: reduce_contract_def)
  then have "add_reduce [Finite 0] = Finite 0"
    by (rule sum_order_zeros) simp
  then show ?thesis
    using assms(2) by (simp add: row_distance_def np_subtract_row_def row_norm_def)
qed

lemma underflow_tie_any_order:
  assumes "reduce_contract add_reduce"
  shows "distances add_reduce [[1 / 2 ^ 100], [0]] [0] = Inr [Finite 0, Finite 0]"
    and "distances add_reduce [[0], [1 / 2 ^ 100]] [0] = Inr [Finite 0, Finite 0]"
    and "semantic_search encode_zero add_reduce argsort ''q'' [''a'', ''b'']
           [[1 / 2 ^ 100], [0]] 1
         = semantic_search encode_zero add_reduce argsort ''q'' [''a'', ''b'']
           [[0], [1 / 2 ^ 100]] 1"
proof -
  have sq: "f32_mul (round_f32 (1 / 2 ^ 100)) (round_f32 (1 / 2 ^ 100)) = Finite 0"
    by code_simp
  have a: "row_distance add_reduce [1 / 2 ^ 100] [0] = Inr (Finite 0)"
    by (rule row_distance_square_underflow [OF assms sq])
  have b: "row_distance add_reduce [0] [0] = Inr (Finite 0)"
    using row_norm_zero [OF assms self_difference_zero [of "[0]"]]
    by (simp add: row_distance_same_dim)
  have d1: "map_result (\<lambda>e. row_distance add_reduce e [0]) [[1 / 2 ^ 100], [0]]
              = Inr [Finite 0, Finite 0]"
    unfolding map_result.simps a b by simp
  have d2: "map_result (\<lambda>e. row_distance add_reduce e [0]) [[0], [1 / 2 ^ 100]]
              = Inr [Finite 0, Finite 0]"
    unfolding map_result.simps a b by simp
  show e1: "distances add_reduce [[1 / 2 ^ 100], [0]] [0] = Inr [Finite 0, Finite 0]"
    unfolding distances_def d1 by simp
  show e2: "distances add_reduce [[0], [1 / 2 ^ 100]] [0] = Inr [Finite 0, Finite 0]"
    unfolding distances_def d2 by simp
  show "semantic_search encode_zero add_reduce argsort ''q'' [''a'', ''b'']
           [[1 / 2 ^ 100], [0]] 1
         = semantic_search encode_zero add_reduce argsort ''q'' [''a'', ''b'']
           [[0], [1 / 2 ^ 100]] 1"
    unfolding semantic_search_def encode_zero_query
    by (simp only: sum.case list.case e1 e2)
qed







section \<open>Properties of the parser on well-formed replies\<close>

lemma py_in_sublist: "py_in sub s \<longleftrightarrow> sublist sub s"
  by (induction s) (auto simp: sublist_Cons_right)

lemma sublist_across_char:
  assumes "c \<notin> set sep"
  shows "sublist sep (a @ c # b) \<longleftrightarrow> sublist sep a \<or> sublist sep b"
proof
  assume "sublist sep (a @ c # b)"
  then consider "sublist sep a" | "sublist sep (c # b)"
    | xs1 xs2 where "sep = xs1 @ xs2" "suffix xs1 a" "prefix xs2 (c # b)"
    unfolding sublist_append by blast
  then show "sublist sep a \<or> sublist sep b"
  proof cases
    case 1
    then show ?thesis by simp
  next
    case 2
    then show ?thesis
      using assms by (cases sep) (auto simp: sublist_Cons_right)
  next
    case 3
    show ?thesis
    proof (cases xs2)
      case Nil
      then show ?thesis using 3 by (auto simp: suffix_def)
    next
      case (Cons x xs)
      then show ?thesis using 3 assms by auto
    qed
  qed
next
  assume "sublist sep a \<or> sublist sep b"
  then show "sublist sep (a @ c # b)"
    by (auto simp: sublist_append sublist_Cons_right)
qed

lemma py_split_none: "\<not> sublist sep s \<Longrightarrow> py_split sep s = [s]"
  by (induction s) (auto simp: sublist_Cons_right)

lemma py_replace_none: "\<not> sublist old s \<Longrightarrow> py_replace old new s = s"
  by (induction s) (auto simp: sublist_Cons_right)

lemma py_replace_prefix:
  "old \<noteq> [] \<Longrightarrow> py_replace old new (old @ s) = new @ py_replace old new s"
  by (cases old) auto

lemma py_split_first:
  assumes "sep \<noteq> []"
  shows "\<not> sublist sep (a @ butlast sep) \<Longrightarrow> py_split sep (a @ sep @ b) = a # py_split sep b"
proof (induction a)
  case Nil
  then show ?case using assms by (cases sep) auto
next
  case (Cons c a)
  have no_prefix: "\<not> prefix sep (c # a @ butlast sep)"
    and rest: "\<not> sublist sep (a @ butlast sep)"
    using Cons.prems by (auto simp: sublist_Cons_right)
  have "\<not> prefix sep (c # a @ sep @ b)"
  proof
    assume p: "prefix sep (c # a @ sep @ b)"
    have "c # a @ sep @ b = (c # a @ butlast sep) @ (last sep # b)"
      using assms by simp
    moreover have "length sep \<le> length (c # a @ butlast sep)" by simp
    ultimately have "prefix sep (c # a @ butlast sep)"
      using p by (metis prefix_length_prefix prefix_order.eq_iff prefix_append append_prefixD
          prefixI)
    then show False using no_prefix by blast
  qed
  then show ?case using Cons.IH [OF rest] by simp
qed

lemma py_strip_core:
  assumes "s \<noteq> []" "\<not> py_isspace (hd s)" "\<not> py_isspace (last s)"
    and "\<forall>c\<in>set pre. py_isspace c" "\<forall>c\<in>set post. py_isspace c"
  shows "py_strip (pre @ s @ post) = s"
proof -
  have "dropWhile py_isspace (pre @ s @ post) = s @ post"
    using assms(1,2,4) by (cases s) (auto simp: dropWhile_append)
  moreover have "dropWhile py_isspace (rev post @ rev s) = rev s"
    using assms(1,3,5) by (cases s rule: rev_cases) (auto simp: dropWhile_append)
  ultimately show ?thesis by (simp add: py_strip_def)
qed

lemma py_strip_id:
  "s \<noteq> [] \<Longrightarrow> \<not> py_isspace (hd s) \<Longrightarrow> \<not> py_isspace (last s) \<Longrightarrow> py_strip s = s"
  using py_strip_core [of s "[]" "[]"] by simp

lemma digit_not_space: "py_isdigit d \<Longrightarrow> \<not> py_isspace d"
  by (auto simp: py_isdigit_def py_isspace_def Let_def)

lemma digit_neq:
  assumes "py_isdigit d"
  shows "d \<noteq> CHR ''.''" "d \<noteq> CHR ''O''" "d \<noteq> CHR ''S''" "d \<noteq> CHR ''\<newline>''"
  using assms by (auto simp: py_isdigit_def)

lemma numbered_line_props:
  assumes "py_isdigit d" "plain_question q"
  shows "numbered_line d q \<noteq> []"
    and "hd (numbered_line d q) = d"
    and "last (numbered_line d q) = last q"
    and "CHR ''\<newline>'' \<notin> set (numbered_line d q)"
    and "\<not> sublist ''Objective Questions:'' (numbered_line d q)"
    and "\<not> sublist ''Short Answer Questions:'' (numbered_line d q)"
  using assms digit_neq [OF assms(1)]
  by (auto simp: numbered_line_def plain_question_def py_in_sublist sublist_Cons_right)

lemma extract_question_numbered:
  assumes "py_isdigit d" "plain_question q"
  shows "extract_question (numbered_line d q) = q"
proof -
  have "py_strip (numbered_line d q) = numbered_line d q"
    using numbered_line_props(1-3) [OF assms] assms digit_not_space
    by (intro py_strip_id) (auto simp: plain_question_def)
  moreover have "py_find ''. '' (numbered_line d q) = 1"
    using digit_neq(1) [OF assms(1)] by (simp add: numbered_line_def)
  ultimately show ?thesis
    by (simp add: extract_question_def numbered_line_def)
qed

lemma extract_questions_two:
  assumes "py_isdigit d1" "plain_question q1" "py_isdigit d2" "plain_question q2"
  shows "extract_questions [numbered_line d1 q1, numbered_line d2 q2] = [q1, q2]"
proof -
  have s: "py_strip (numbered_line d q) \<noteq> []" if "py_isdigit d" "plain_question q" for d q
  proof -
    have "py_strip (numbered_line d q) = numbered_line d q"
      using numbered_line_props(1-3) [OF that] that digit_not_space
      by (intro py_strip_id) (auto simp: plain_question_def)
    then show ?thesis by (simp add: numbered_line_def)
  qed
  have t: "list_ex py_isdigit (take 2 (numbered_line d q))" if "py_isdigit d" for d q
    using that by (simp add: numbered_line_def)
  show ?thesis
    using s t assms by (simp add: extract_question_numbered)
qed

lemma py_split_two_lines:
  assumes "CHR ''\<newline>'' \<notin> set l1" "CHR ''\<newline>'' \<notin> set l2"
  shows "py_split ''\<newline>'' (l1 @ ''\<newline>'' @ l2) = [l1, l2]"
proof -
  have a: "\<not> sublist ''\<newline>'' l" if "CHR ''\<newline>'' \<notin> set l" for l
    using that set_mono_sublist [of "''\<newline>''" l] by auto
  have "py_split ''\<newline>'' (l1 @ ''\<newline>'' @ l2) = l1 # py_split ''\<newline>'' l2"
    by (rule py_split_first) (use a [OF assms(1)] in simp_all)
  then show ?thesis using py_split_none [OF a [OF assms(2)]] by simp
qed

lemma parse_questions_lines:
  assumes l1: "l1 \<noteq> []" "\<not> py_isspace (hd l1)" "CHR ''\<newline>'' \<notin> set l1"
      "\<not> sublist ''Objective Questions:'' l1" "\<not> sublist ''Short Answer Questions:'' l1"
    and l2: "l2 \<noteq> []" "\<not> py_isspace (last l2)" "CHR ''\<newline>'' \<notin> set l2"
      "\<not> sublist ''Objective Questions:'' l2" "\<not> sublist ''Short Answer Questions:'' l2"
    and l3: "l3 \<noteq> []" "\<not> py_isspace (hd l3)" "CHR ''\<newline>'' \<notin> set l3"
      "\<not> sublist ''Short Answer Questions:'' l3"
    and l4: "l4 \<noteq> []" "\<not> py_isspace (last l4)" "CHR ''\<newline>'' \<notin> set l4"
      "\<not> sublist ''Short Answer Questions:'' l4"
  shows "parse_questions
           (''Objective Questions:'' @ ''\<newline>'' @ l1 @ ''\<newline>'' @ l2 @ ''\<newline>''
            @ ''Short Answer Questions:'' @ ''\<newline>'' @ l3 @ ''\<newline>'' @ l4)
         = Inr \<lparr>objective = extract_questions [l1, l2],
                 subjective = extract_questions [l3, l4]\<rparr>"
proof -
  define M1 where "M1 = ''Objective Questions:''"
  define M2 where "M2 = ''Short Answer Questions:''"
  define NL where "NL = CHR ''\<newline>''"
  define P0 where "P0 = M1 @ NL # l1 @ NL # l2 @ [NL]"
  define P1 where "P1 = NL # l3 @ NL # l4"
  define T where "T = P0 @ M2 @ P1"
  have M1: "M1 \<noteq> []" "NL \<notin> set M1" "length M1 = 20"
    by (simp_all add: M1_def NL_def)
  have M2: "M2 \<noteq> []" "NL \<notin> set M2" "length M2 = 23"
    by (simp_all add: M2_def NL_def)
  have sp: "py_isspace NL" by (simp add: NL_def py_isspace_def)
  have in1: "py_in M1 T"
    unfolding py_in_sublist T_def P0_def by (simp add: sublist_append)
  have in2: "py_in M2 T"
    unfolding py_in_sublist T_def by simp
  have short: "\<not> sublist M2 M1" "\<not> sublist M2 (butlast M2)" "\<not> sublist M2 []"
      "\<not> sublist M1 []"
    using sublist_length_le [of M2 M1] sublist_length_le [of M2 "butlast M2"] M1 M2
    by auto
  have "P0 @ butlast M2 = M1 @ NL # l1 @ NL # l2 @ NL # butlast M2"
    by (simp add: P0_def)
  then have no0: "\<not> sublist M2 (P0 @ butlast M2)"
    using short l1(5) l2(5) M2(2) by (simp add: sublist_across_char M2_def [symmetric])
  have no1: "\<not> sublist M2 P1"
    unfolding P1_def using short l3(4) l4(4) M2(2)
      sublist_across_char [of NL M2 "[]" "l3 @ NL # l4"]
    by (simp add: sublist_across_char M2_def [symmetric])
  have split: "py_split M2 T = [P0, P1]"
    unfolding T_def using py_split_first [OF M2(1) no0, of P1] py_split_none [OF no1] by simp
  have "\<not> sublist M1 (NL # l1 @ NL # l2 @ [NL])"
    using short l1(4) l2(4) M1(2)
      sublist_across_char [of NL M1 "[]" "l1 @ NL # l2 @ [NL]"]
    by (simp add: sublist_across_char M1_def [symmetric])
  then have "py_replace M1 [] (NL # l1 @ NL # l2 @ [NL]) = NL # l1 @ NL # l2 @ [NL]"
    by (rule py_replace_none)
  moreover have "py_replace M1 [] (M1 @ NL # l1 @ NL # l2 @ [NL])
                   = [] @ py_replace M1 [] (NL # l1 @ NL # l2 @ [NL])"
    by (rule py_replace_prefix [OF M1(1)])
  ultimately have "py_replace M1 [] P0 = NL # l1 @ NL # l2 @ [NL]"
    unfolding P0_def by (simp only: append_Nil)
  moreover have "py_strip ([NL] @ (l1 @ NL # l2) @ [NL]) = l1 @ NL # l2"
    by (rule py_strip_core) (use l1 l2 sp in auto)
  ultimately have obj: "py_strip (py_replace M1 [] P0) = l1 @ NL # l2"
    by simp
  have "py_strip ([NL] @ (l3 @ NL # l4) @ []) = l3 @ NL # l4"
    by (rule py_strip_core) (use l3 l4 sp in auto)
  then have subj: "py_strip P1 = l3 @ NL # l4"
    by (simp add: P1_def)
  have lines: "py_split [NL] (a @ NL # b) = [a, b]" if "NL \<notin> set a" "NL \<notin> set b" for a b
    using py_split_two_lines [of a b] that by (simp add: NL_def)
  have "parse_questions T
         = Inr \<lparr>objective = extract_questions [l1, l2],
                 subjective = extract_questions [l3, l4]\<rparr>"
    using in1 in2 split obj subj lines l1(3) l2(3) l3(3) l4(3)
    by (simp add: parse_questions_def M1_def [symmetric] M2_def [symmetric] NL_def [symmetric])
  moreover have "T = ''Objective Questions:'' @ ''\<newline>'' @ l1 @ ''\<newline>'' @ l2 @ ''\<newline>''
            @ ''Short Answer Questions:'' @ ''\<newline>'' @ l3 @ ''\<newline>'' @ l4"
    by (simp add: T_def P0_def P1_def M1_def M2_def NL_def)
  ultimately show ?thesis by simp
qed

text \<open>
  C8, as the code has it: on a reply made of the two markers, each followed by two
  lines \<open>d. question\<close> whose number \<open>d\<close> is one digit and whose question is plain,
  \<open>parse_questions\<close> returns exactly the two objective and the two subjective questions,
  without their number prefixes.
\<close>

theorem parse_questions_two_each:
  assumes "py_isdigit d1" "py_isdigit d2" "py_isdigit d3" "py_isdigit d4"
    and "plain_question q1" "plain_question q2" "plain_question q3" "plain_question q4"
  shows "parse_questions
           (''Objective Questions:\<newline>'' @ [d1] @ ''. '' @ q1 @ ''\<newline>''
              @ [d2] @ ''. '' @ q2 @ ''\<newline>'' @
            ''Short Answer Questions:\<newline>'' @ [d3] @ ''. '' @ q3 @ ''\<newline>''
              @ [d4] @ ''. '' @ q4)
         = Inr \<lparr>objective = [q1, q2], subjective = [q3, q4]\<rparr>"
proof -
  note p1 = numbered_line_props [OF assms(1) assms(5)]
  note p2 = numbered_line_props [OF assms(2) assms(6)]
  note p3 = numbered_line_props [OF assms(3) assms(7)]
  note p4 = numbered_line_props [OF assms(4) assms(8)]
  have sp: "\<not> py_isspace d1" "\<not> py_isspace d3" "\<not> py_isspace (last q2)" "\<not> py_isspace (last q4)"
    using assms digit_not_space by (auto simp: plain_question_def)
  have "parse_questions
           (''Objective Questions:'' @ ''\<newline>'' @ numbered_line d1 q1 @ ''\<newline>''
            @ numbered_line d2 q2 @ ''\<newline>''
            @ ''Short Answer Questions:'' @ ''\<newline>'' @ numbered_line d3 q3 @ ''\<newline>''
            @ numbered_line d4 q4)
         = Inr \<lparr>objective = extract_questions [numbered_line d1 q1, numbered_line d2 q2],
                 subjective = extract_questions [numbered_line d3 q3, numbered_line d4 q4]\<rparr>"
    by (rule parse_questions_lines) (use p1 p2 p3 p4 sp in simp_all)
  then show ?thesis
    using extract_questions_two [OF assms(1) assms(5) assms(2) assms(6)]
      extract_questions_two [OF assms(3) assms(7) assms(4) assms(8)]
    by (simp add: numbered_line_def)
qed

theorem parse_questions_two_each_witness:
  "py_isdigit CHR ''1'' \<and> py_isdigit CHR ''2'' \<and> plain_question ''What is a chunk?'' \<and>
   plain_question ''B'' \<and>
   parse_questions
     (''Objective Questions:\<newline>'' @ [CHR ''1''] @ ''. '' @ ''What is a chunk?'' @ ''\<newline>''
        @ [CHR ''2''] @ ''. '' @ ''B'' @ ''\<newline>'' @
      ''Short Answer Questions:\<newline>'' @ [CHR ''1''] @ ''. '' @ ''What is a chunk?'' @ ''\<newline>''
        @ [CHR ''2''] @ ''. '' @ ''B'')
     = Inr \<lparr>objective = [''What is a chunk?'', ''B''], subjective = [''What is a chunk?'', ''B'']\<rparr>"
proof -
  have d: "py_isdigit CHR ''1''" "py_isdigit CHR ''2''"
    by (simp_all add: py_isdigit_def)
  have q: "plain_question ''What is a chunk?''" "plain_question ''B''"
    by (simp_all add: plain_question_def py_isspace_def)
  show ?thesis
    using parse_questions_two_each [OF d(1) d(2) d(1) d(2) q(1) q(2) q(1) q(2)] d q
    by blast
qed

text \<open>
  C8 as stated fails for a number of two digits: \<open>''. ''\<close> is then not within the
  first three characters of the line, and the line is kept with its prefix.
\<close>

theorem parse_questions_two_digit_numbers:
  "parse_questions
     ''Objective Questions:\<newline>10. A\<newline>11. B\<newline>Short Answer Questions:\<newline>1. C\<newline>2. D''
     = Inr \<lparr>objective = [''10. A'', ''11. B''], subjective = [''C'', ''D'']\<rparr>"
  by (simp add: parse_questions_def extract_question_def py_strip_def py_isspace_def py_isdigit_def)

end
